theory Spec2Isabelle
  imports Complex_Main "HOL-Library.Multiset" "HOL-Library.Product_Lexorder"
begin

section \<open>Solver options\<close>

text \<open>
  The class \<open>SolverOptions\<close> as \<open>solver_options.h\<close> declares it: two public fields of
  type \<open>double\<close> with default member initialisers. A \<open>double\<close> is modelled by the real
  number its value denotes; the literals \<open>1.0e-6\<close> and \<open>0.1\<close> stand for the decimal
  fractions they are written as.
\<close>

record SolverOptions =
  atol :: real
  dt_init :: real

text \<open>\<open>SolverOptions() = default\<close>: every field takes its default member initialiser.\<close>

definition SolverOptions_default :: SolverOptions where
  "SolverOptions_default = \<lparr>atol = 1 / 10 ^ 6, dt_init = 1 / 10\<rparr>"

text \<open>
  \<open>solver_options.cpp\<close> reads and writes further members of the class
  (\<open>preconditioned_CGS\<close>, \<open>refinement_steps\<close>, \<open>parallel_fact_control\<close>,
  \<open>parallel_solve_control\<close>, \<open>bdf_order\<close>) whose declarations are not part of the header
  above. They are integer members; the record is extended by them. No arithmetic is
  done on them, so they are modelled as unbounded integers.
\<close>

record SolverOptions_impl = SolverOptions +
  preconditioned_CGS :: int
  refinement_steps :: int
  parallel_fact_control :: int
  parallel_solve_control :: int
  bdf_order :: int

subsection \<open>\<open>SolverOptions::check_options\<close>\<close>

text \<open>
  The macro \<open>BDF_MAX_ORDER\<close> is not defined in the sources at hand; it is the first
  argument of the model.
  \<^verbatim>\<open>
  if(bdf_order < 1 || bdf_order > BDF_MAX_ORDER) { bdf_order = 1; }
  \<close>
\<close>

definition check_options :: "int \<Rightarrow> SolverOptions_impl \<Rightarrow> SolverOptions_impl" where
  "check_options BDF_MAX_ORDER opt =
     (if bdf_order opt < 1 \<or> bdf_order opt > BDF_MAX_ORDER
      then opt\<lparr>bdf_order := 1\<rparr>
      else opt)"

subsection \<open>\<open>SolverOptions::set_iparm_for_pardiso\<close>\<close>

text \<open>
  \<open>iparm\<close> is a pointer to an array of \<open>MKL_INT\<close> owned by the caller; the array is a
  list of integers. The function writes the indices 0 to 63, so an array shorter than
  64 entries is an out-of-bounds write: the model has no result (\<open>None\<close>) there.
\<close>

text \<open>\<open>for(MKL_INT i = 0; i < 64; i++) iparm[i] = 0;\<close>, started at \<open>i\<close>.\<close>

function zero_iparm :: "nat \<Rightarrow> int list \<Rightarrow> int list" where
  "zero_iparm i iparm = (if i < 64 then zero_iparm (Suc i) (iparm[i := 0]) else iparm)"
  by pat_completeness auto
termination
  by (relation "measure (\<lambda>(i, iparm). 64 - i)") auto

declare zero_iparm.simps [simp del]

text \<open>The assignments after the loop, in the order of the source.\<close>

definition assign_iparm :: "SolverOptions_impl \<Rightarrow> int list \<Rightarrow> int list" where
  "assign_iparm opt iparm0 =
    (let iparm = iparm0[0 := 1];
         iparm = iparm[1 := 3];
         iparm = iparm[3 := preconditioned_CGS opt];
         iparm = iparm[4 := 0];
         iparm = iparm[5 := 0];
         iparm = iparm[6 := 0];
         iparm = iparm[7 := refinement_steps opt];
         iparm = iparm[9 := 13];
         iparm = iparm[10 := 1];
         iparm = iparm[11 := 0];
         iparm = iparm[12 := 1];
         iparm = iparm[13 := 0];
         iparm = iparm[14 := 0];
         iparm = iparm[15 := 0];
         iparm = iparm[16 := 0];
         iparm = iparm[17 := 0];
         iparm = iparm[18 := 0];
         iparm = iparm[19 := 0];
         iparm = iparm[23 := parallel_fact_control opt];
         iparm = (if iparm ! 23 = 1 then (iparm[10 := 0])[12 := 0] else iparm);
         iparm = iparm[24 := parallel_solve_control opt];
         iparm = iparm[26 := 0];
         iparm = iparm[27 := 0];
         iparm = iparm[29 := 0];
         iparm = iparm[30 := 0];
         iparm = iparm[33 := 0];
         iparm = iparm[34 := 0];
         iparm = iparm[59 := 0]
     in iparm)"

definition set_iparm_for_pardiso :: "SolverOptions_impl \<Rightarrow> int list \<Rightarrow> int list option" where
  "set_iparm_for_pardiso opt iparm =
     (if length iparm < 64 then None
      else Some (assign_iparm opt (zero_iparm 0 iparm)))"

text \<open>The 64 entries the function leaves behind, written out.\<close>

definition iparm_written :: "SolverOptions_impl \<Rightarrow> int list" where
  "iparm_written opt =
     (let s = (if parallel_fact_control opt = 1 then 0 else 1) in
      [1, 3, 0, preconditioned_CGS opt, 0, 0, 0, refinement_steps opt,
       0, 13, s, 0, s, 0, 0, 0,
       0, 0, 0, 0, 0, 0, 0, parallel_fact_control opt,
       parallel_solve_control opt, 0, 0, 0, 0, 0, 0, 0,
       0, 0, 0, 0, 0, 0, 0, 0,
       0, 0, 0, 0, 0, 0, 0, 0,
       0, 0, 0, 0, 0, 0, 0, 0,
       0, 0, 0, 0, 0, 0, 0, 0])"

text \<open>An options object used to instantiate the theorems below.\<close>

definition example_options :: SolverOptions_impl where
  "example_options =
     \<lparr>atol = 1 / 10 ^ 6, dt_init = 1 / 10, preconditioned_CGS = 0, refinement_steps = 2,
      parallel_fact_control = 1, parallel_solve_control = 0, bdf_order = 3\<rparr>"


section \<open>Sparse matrix\<close>

text \<open>
  Modelled from the spec: the class \<open>sparse_matrix\<close> (\<open>sparse-matrix.hpp\<close>) is not among
  the sources. The spec gives its insertion protocol, \<open>insert(row, col, value)\<close> and
  \<open>reserve(count)\<close>, as an append-only collection of triplets. The model keeps the
  triplets in insertion order and, beside them, the arguments of the \<open>reserve\<close> calls
  the matrix has received, so that such a call can be observed.
\<close>

record sparse_matrix =
  triplets :: "(int \<times> int \<times> real) list"
  reserve_calls :: "int list"

text \<open>Modelled from the spec: a fresh matrix, empty on entry to a Jacobian provider.\<close>

definition sparse_matrix_empty :: sparse_matrix where
  "sparse_matrix_empty = \<lparr>triplets = [], reserve_calls = []\<rparr>"

text \<open>
  Modelled from the spec: \<open>J(i, j, val)\<close>, the spec's \<open>insert(row, col, value)\<close>, appends
  one triplet.
\<close>

definition sm_insert :: "int \<Rightarrow> int \<Rightarrow> real \<Rightarrow> sparse_matrix \<Rightarrow> sparse_matrix" where
  "sm_insert i j val J = J\<lparr>triplets := triplets J @ [(i, j, val)]\<rparr>"

text \<open>
  Modelled from the spec: \<open>J.reserve(n)\<close>, the spec's \<open>reserve(count)\<close>, pre-sizes the
  storage and leaves the entries as they are; the request is recorded.
\<close>

definition sm_reserve :: "int \<Rightarrow> sparse_matrix \<Rightarrow> sparse_matrix" where
  "sm_reserve n J = J\<lparr>reserve_calls := reserve_calls J @ [n]\<rparr>"

section \<open>Jacobian strategies\<close>

text \<open>
  \<open>int_type\<close> is declared in \<open>typedefs.hpp\<close>, which is not among the sources. Loop
  counters and the system size are natural numbers in the model (the size of a vector
  is taken to fit \<open>int_type\<close>); the indices a user declares are integers of either sign.
\<close>

subsection \<open>\<open>JacobianAutomatic::operator()\<close>\<close>

text \<open>
  The dense matrix comes from \<open>autodiff::jacobian\<close>, an external library. It is the
  parameter \<open>jacobian\<close>: \<open>jacobian x t i j\<close> is \<open>jac(i, j)\<close> for the state \<open>x\<close> and
  the time \<open>t\<close>. The macro \<open>DAECPP_SPARSE_MATRIX_ELEMENT_TOLERANCE\<close> is not defined in
  the sources either; it is the parameter \<open>tol\<close>.
\<close>

text \<open>The inner loop \<open>for (int_type i = 0; i < size; ++i)\<close> of column \<open>j\<close>, started at \<open>i\<close>;
  \<open>n\<close> is \<open>size\<close>.\<close>

function sparsify_column ::
  "(nat \<Rightarrow> nat \<Rightarrow> real) \<Rightarrow> real \<Rightarrow> nat \<Rightarrow> nat \<Rightarrow> nat \<Rightarrow> sparse_matrix \<Rightarrow> sparse_matrix" where
  "sparsify_column jac tol n j i J =
     (if i < n
      then sparsify_column jac tol n j (Suc i)
             (let val = jac i j
              in if \<bar>val\<bar> > tol then sm_insert (int i) (int j) val J else J)
      else J)"
  by pat_completeness auto
termination
  by (relation "measure (\<lambda>(jac, tol, n, j, i, J). n - i)") auto

declare sparsify_column.simps [simp del]

text \<open>The outer loop \<open>for (int_type j = 0; j < size; ++j)\<close>, started at \<open>j\<close>.\<close>

function sparsify_columns ::
  "(nat \<Rightarrow> nat \<Rightarrow> real) \<Rightarrow> real \<Rightarrow> nat \<Rightarrow> nat \<Rightarrow> sparse_matrix \<Rightarrow> sparse_matrix" where
  "sparsify_columns jac tol n j J =
     (if j < n
      then sparsify_columns jac tol n (Suc j) (sparsify_column jac tol n j 0 J)
      else J)"
  by pat_completeness auto
termination
  by (relation "measure (\<lambda>(jac, tol, n, j, J). n - j)") auto

declare sparsify_columns.simps [simp del]

definition JacobianAutomatic_call ::
  "(real list \<Rightarrow> real \<Rightarrow> nat \<Rightarrow> nat \<Rightarrow> real) \<Rightarrow> real \<Rightarrow> sparse_matrix \<Rightarrow> real list \<Rightarrow> real
     \<Rightarrow> sparse_matrix" where
  "JacobianAutomatic_call jacobian tol J x t =
     (let n = length x;
          jac = jacobian x t
      in sparsify_columns jac tol n 0 J)"

subsection \<open>\<open>JacobianMatrixShape\<close>\<close>

record JacobianMatrixShape =
  m_Jn :: "(int \<times> int) list"
  m_N_elements :: int

text \<open>The constructor: an empty array of positions, \<open>m_N_elements{0}\<close>.\<close>

definition JacobianMatrixShape_new :: JacobianMatrixShape where
  "JacobianMatrixShape_new = \<lparr>m_Jn = [], m_N_elements = 0\<rparr>"

text \<open>\<open>add_element(ind_i, ind_j)\<close>\<close>

definition add_element :: "int \<Rightarrow> int \<Rightarrow> JacobianMatrixShape \<Rightarrow> JacobianMatrixShape" where
  "add_element ind_i ind_j s = s\<lparr>m_Jn := m_Jn s @ [(ind_i, ind_j)]\<rparr>"

text \<open>\<open>add_element(ind_i, std::vector<int_type> ind_j)\<close>: one \<open>emplace_back\<close> per column.\<close>

fun add_element_row :: "int \<Rightarrow> int list \<Rightarrow> JacobianMatrixShape \<Rightarrow> JacobianMatrixShape" where
  "add_element_row ind_i [] s = s"
| "add_element_row ind_i (j # ind_j) s =
     add_element_row ind_i ind_j (s\<lparr>m_Jn := m_Jn s @ [(ind_i, j)]\<rparr>)"

definition clear :: "JacobianMatrixShape \<Rightarrow> JacobianMatrixShape" where
  "clear s = s\<lparr>m_Jn := []\<rparr>"

definition reserve :: "int \<Rightarrow> JacobianMatrixShape \<Rightarrow> JacobianMatrixShape" where
  "reserve N_elements s = s\<lparr>m_N_elements := N_elements\<rparr>"

text \<open>
  The loop over \<open>m_Jn\<close>. \<open>autodiff::derivative(f, wrt(x_[Jn.second]), at(x_, t, Jn.first))\<close>
  is external: \<open>derivative x t row col\<close> stands for its value. The expression
  \<open>x_[Jn.second]\<close> subscripts a vector of \<open>size\<close> elements, which is undefined for a
  column outside \<open>[0, size)\<close>; the model has no result there.
\<close>

fun differentiate_elements ::
  "(real list \<Rightarrow> real \<Rightarrow> int \<Rightarrow> int \<Rightarrow> real) \<Rightarrow> real list \<Rightarrow> real \<Rightarrow> (int \<times> int) list
     \<Rightarrow> sparse_matrix \<Rightarrow> sparse_matrix option" where
  "differentiate_elements derivative x t [] J = Some J"
| "differentiate_elements derivative x t (Jn # rest) J =
     (if 0 \<le> snd Jn \<and> snd Jn < int (length x)
      then differentiate_elements derivative x t rest
             (sm_insert (fst Jn) (snd Jn) (derivative x t (fst Jn) (snd Jn)) J)
      else None)"

definition JacobianMatrixShape_call ::
  "(real list \<Rightarrow> real \<Rightarrow> int \<Rightarrow> int \<Rightarrow> real) \<Rightarrow> JacobianMatrixShape \<Rightarrow> sparse_matrix
     \<Rightarrow> real list \<Rightarrow> real \<Rightarrow> (sparse_matrix \<times> JacobianMatrixShape) option" where
  "JacobianMatrixShape_call derivative s J x t =
     (let J1 = (if m_N_elements s \<noteq> 0 then sm_reserve (m_N_elements s) J else J)
      in case differentiate_elements derivative x t (m_Jn s) J1 of
           None \<Rightarrow> None
         | Some J2 \<Rightarrow> Some (J2, s\<lparr>m_N_elements := int (length (m_Jn s))\<rparr>))"

text \<open>
  A sequence of declarations made through the two overloads of \<open>add_element\<close>, and the
  positions it declares, in the order of declaration.
\<close>

datatype shape_decl = Element int int | Row int "int list"

fun declare_position :: "shape_decl \<Rightarrow> JacobianMatrixShape \<Rightarrow> JacobianMatrixShape" where
  "declare_position (Element i j) s = add_element i j s"
| "declare_position (Row i js) s = add_element_row i js s"

fun declare_positions :: "shape_decl list \<Rightarrow> JacobianMatrixShape \<Rightarrow> JacobianMatrixShape" where
  "declare_positions [] s = s"
| "declare_positions (d # ds) s = declare_positions ds (declare_position d s)"

fun positions_of :: "shape_decl \<Rightarrow> (int \<times> int) list" where
  "positions_of (Element i j) = [(i, j)]"
| "positions_of (Row i js) = map (\<lambda>j. (i, j)) js"

definition declared_positions :: "shape_decl list \<Rightarrow> (int \<times> int) list" where
  "declared_positions ds = concat (map positions_of ds)"

definition position :: "int \<times> int \<times> real \<Rightarrow> int \<times> int" where
  "position e = (fst e, fst (snd e))"

section \<open>Double-precision numbers\<close>

text \<open>
  Where a result depends on how a \<open>double\<close> rounds, overflows or compares, the value
  is modelled as an IEEE-754 binary64 number: not-a-number, the two infinities, or a
  finite real. The two zeros are one value. Every representable number is a \<open>Fin r\<close>;
  the operations below return representable numbers only.
\<close>

datatype double = NaN | MInf | Fin real | PInf

text \<open>The comparison \<open>a < b\<close> of two doubles: false whenever an operand is not a number.\<close>

fun dless :: "double \<Rightarrow> double \<Rightarrow> bool" where
  "dless NaN b = False"
| "dless a NaN = False"
| "dless MInf b = (b \<noteq> MInf)"
| "dless (Fin x) MInf = False"
| "dless (Fin x) (Fin y) = (x < y)"
| "dless (Fin x) PInf = True"
| "dless PInf b = False"

text \<open>The comparison \<open>a == b\<close>: a NaN is equal to nothing, itself included.\<close>

definition deq :: "double \<Rightarrow> double \<Rightarrow> bool" where
  "deq a b = (a \<noteq> NaN \<and> b \<noteq> NaN \<and> a = b)"

text \<open>
  Rounding of a real number to binary64 in the default mode, to nearest with ties to
  even. \<open>rne\<close> rounds to an integer. The exponent \<open>k\<close> of \<open>r\<close> is the first one from
  \<open>-1022\<close> on with \<open>|r| < 2^(k+1)\<close>; the significand has 53 bits, so the numbers of that
  exponent are the multiples of \<open>2^(k-52)\<close> (for \<open>k = -1022\<close> these include the
  subnormal numbers). A magnitude that reaches \<open>2^1024\<close>, before or after rounding,
  overflows to the infinity of its sign.
\<close>

definition rne :: "real \<Rightarrow> int" where
  "rne q =
     (let n = \<lfloor>q\<rfloor>; d = q - of_int n
      in if d < 1 / 2 then n else if 1 / 2 < d then n + 1 else if even n then n else n + 1)"

definition overflow :: "real \<Rightarrow> double" where
  "overflow r = (if 0 < r then PInf else MInf)"

definition round_double :: "real \<Rightarrow> double" where
  "round_double r =
     (case find (\<lambda>k. \<bar>r\<bar> < 2 powi (k + 1)) [- 1022..1023] of
        None \<Rightarrow> overflow r
      | Some k \<Rightarrow>
          (let ulp = 2 powi (k - 52);
               v = of_int (rne (r / ulp)) * ulp
           in if 2 powi 1024 \<le> \<bar>v\<bar> then overflow r else Fin v))"

text \<open>
  The product \<open>a * b\<close> of two doubles: the exact product, rounded; a NaN operand, or
  zero times an infinity, gives NaN; otherwise an infinite operand gives the infinity
  of the product's sign.
\<close>

fun dsign :: "double \<Rightarrow> real" where
  "dsign NaN = 0"
| "dsign MInf = - 1"
| "dsign (Fin x) = sgn x"
| "dsign PInf = 1"

fun dmul :: "double \<Rightarrow> double \<Rightarrow> double" where
  "dmul NaN b = NaN"
| "dmul a NaN = NaN"
| "dmul (Fin x) (Fin y) = round_double (x * y)"
| "dmul a b =
     (let s = dsign a * dsign b
      in if s = 0 then NaN else if 0 < s then PInf else MInf)"

text \<open>
  A key that orders the doubles other than NaN as \<open>dless\<close> does: by it such doubles can
  be sorted with the library's \<open>sort_key\<close>.
\<close>

fun dkey :: "double \<Rightarrow> int \<times> real" where
  "dkey MInf = (- 1, 0)"
| "dkey (Fin x) = (0, x)"
| "dkey PInf = (1, 0)"
| "dkey NaN = (2, 0)"

section \<open>Right-hand side: the test \<open>RHS.Definition\<close>\<close>

text \<open>
  \<open>TestRHS::operator()\<close> writes \<open>f[0]\<close> and \<open>f[1]\<close> and reads \<open>x[0]\<close> and \<open>x[1]\<close>; with a
  vector of fewer than two elements that is out of bounds and the model has no result.
  \<open>EXPECT_EQ(x.size(), 2)\<close> does not stop the function: its outcome is the first
  component of the result. The vectors hold doubles and \<open>x[1] * t\<close> is the product of
  doubles.
\<close>

definition TestRHS :: "double list \<Rightarrow> double list \<Rightarrow> double \<Rightarrow> (bool \<times> double list) option" where
  "TestRHS f x t =
     (if length f < 2 \<or> length x < 2 then None
      else Some (length x = 2, (f[0 := x ! 0])[1 := dmul (x ! 1) t]))"

section \<open>Solution manager\<close>

text \<open>
  The solution managers compare and store the time, a double, and only copy the state
  vector, whose entries stay real numbers here.
\<close>

text \<open>\<open>SolutionManager::operator()\<close>: does nothing and returns 0.\<close>

definition SolutionManager_call :: "real list \<Rightarrow> double \<Rightarrow> int" where
  "SolutionManager_call x t = 0"

text \<open>
  \<open>SolutionHolder\<close>: the members \<open>x\<close> and \<open>t\<close>, named \<open>sol_x\<close> and \<open>sol_t\<close> here.
\<close>

record SolutionHolder =
  sol_x :: "real list list"
  sol_t :: "double list"

text \<open>The condition that \<open>SolutionHolder::print\<close> asserts on entry.\<close>

definition print_ASSERT :: "SolutionHolder \<Rightarrow> bool" where
  "print_ASSERT h = (length (sol_t h) = length (sol_x h))"

text \<open>
  \<open>std::sort\<close> with the comparison \<open>dless\<close>. The standard leaves the range in
  non-descending order and does not fix the order of elements that compare equivalent.
  For a range without NaN that is one list, the one \<open>sort_key\<close> returns. A range of
  NaNs only stays as it is. For a range that holds a NaN beside a number the standard
  fixes no result (the comparison need not even be a strict weak ordering there), and
  the model has none.
\<close>

definition std_sort :: "double list \<Rightarrow> double list option" where
  "std_sort xs =
     (if NaN \<notin> set xs then Some (sort_key dkey xs)
      else if list_all (\<lambda>x. x = NaN) xs then Some xs
      else None)"

text \<open>
  \<open>std::lower_bound\<close> as the standard library implements it on a random-access range:
  \<open>first\<close> is an index into \<open>xs\<close>, \<open>len\<close> the number of elements still to search.
\<close>

function lower_bound :: "double list \<Rightarrow> nat \<Rightarrow> nat \<Rightarrow> double \<Rightarrow> nat" where
  "lower_bound xs first len val =
     (if 0 < len
      then (let half = len div 2;
                middle = first + half
            in if dless (xs ! middle) val
               then lower_bound xs (middle + 1) (len - half - 1) val
               else lower_bound xs first half val)
      else first)"
  by pat_completeness auto
termination
  by (relation "measure (\<lambda>(xs, first, len, val). len)") auto

declare lower_bound.simps [simp del]

text \<open>
  \<open>std::binary_search(first, last, val)\<close>:
  \<open>i = lower_bound(first, last, val); return i != last && !(val < *i);\<close>
\<close>

definition binary_search :: "double list \<Rightarrow> double \<Rightarrow> bool" where
  "binary_search xs val =
     (let i = lower_bound xs 0 (length xs) val
      in i \<noteq> length xs \<and> \<not> dless val (xs ! i))"

text \<open>
  \<open>Solution\<close> holds a reference to a \<open>SolutionHolder\<close> and its own sorted copy \<open>_t_out\<close> of
  the output times. The copy is the state of the object; the holder it refers to is
  passed to the call and returned updated. The constructor has a result where
  \<open>std::sort\<close> has one.
\<close>

record Solution =
  t_out :: "double list"

definition Solution_new :: "double list \<Rightarrow> Solution option" where
  "Solution_new t_output =
     (if length t_output > 0
      then (case std_sort t_output of
              None \<Rightarrow> None
            | Some sorted_t \<Rightarrow> Some \<lparr>t_out = sorted_t\<rparr>)
      else Some \<lparr>t_out = t_output\<rparr>)"

definition Solution_call ::
  "Solution \<Rightarrow> real list \<Rightarrow> double \<Rightarrow> SolutionHolder \<Rightarrow> int \<times> SolutionHolder" where
  "Solution_call S x t h =
     (if length (t_out S) > 0 \<and> \<not> binary_search (t_out S) t
      then (0, h)
      else (0, h\<lparr>sol_x := sol_x h @ [x], sol_t := sol_t h @ [t]\<rparr>))"

section \<open>Time integration driver\<close>

text \<open>
  An accepted or attempted step is a state vector with its time. The driver keeps a log
  of what happened in a run: the attempts the controller rejected, the steps it
  accepted, and the callback invocations with the value each returned.
\<close>

type_synonym step = "real list \<times> real"

datatype event = Rejected step | Accepted step | Callback step int

datatype status = Reached_t1 | Caller_requested_stop | Fatal_failure | Still_running

text \<open>
  Modelled from the spec: the body of the integration loop (\<open>Solver::operator()\<close>) is
  not among the sources, which only declare it. The spec describes it: while the current
  time is below \<open>t1\<close>, invoke the controller for one step; on success invoke the
  Solution Manager callback with the accepted \<open>(x, t)\<close>; if the callback signals
  non-zero, terminate immediately and report a caller-requested stop; on a fatal failure
  of the controller, terminate and report the failure with the last accepted state.

  The controller is a parameter. One invocation makes a number of attempts that it
  rejects and then either accepts a step or fails for good; it returns the rejected
  attempts, and the accepted step with its own next state, if there is one. The callback
  is a parameter with a state of its own. The loop need not end, so the model counts
  iterations: a run cut short has the status \<open>Still_running\<close>.
\<close>

fun driver ::
  "nat \<Rightarrow> ('k \<Rightarrow> step \<Rightarrow> step list \<times> (step \<times> 'k) option) \<Rightarrow> ('c \<Rightarrow> real list \<Rightarrow> real \<Rightarrow> int \<times> 'c)
     \<Rightarrow> real \<Rightarrow> 'k \<Rightarrow> 'c \<Rightarrow> step \<Rightarrow> event list \<Rightarrow> status \<times> step \<times> 'c \<times> event list" where
  "driver 0 controller callback t1 k c cur trace = (Still_running, cur, c, trace)"
| "driver (Suc n) controller callback t1 k c cur trace =
     (if \<not> snd cur < t1 then (Reached_t1, cur, c, trace)
      else case controller k cur of
             (rejected, None) \<Rightarrow> (Fatal_failure, cur, c, trace @ map Rejected rejected)
           | (rejected, Some (new, k')) \<Rightarrow>
               (case callback c (fst new) (snd new) of
                  (r, c') \<Rightarrow>
                    (let trace' = trace @ map Rejected rejected @ [Accepted new, Callback new r]
                     in if r \<noteq> 0 then (Caller_requested_stop, new, c', trace')
                        else driver n controller callback t1 k' c' new trace')))"








section \<open>Auxiliary definitions\<close>

text \<open>
  The entries the dense-to-sparse conversion inserts for column \<open>j\<close> when the rows
  \<open>is\<close> are visited in order, and the entries of the whole matrix, column by column.
\<close>

definition column_entries ::
  "(nat \<Rightarrow> nat \<Rightarrow> real) \<Rightarrow> real \<Rightarrow> nat \<Rightarrow> nat list \<Rightarrow> (int \<times> int \<times> real) list" where
  "column_entries jac tol j is =
     map (\<lambda>i. (int i, int j, jac i j)) (filter (\<lambda>i. \<bar>jac i j\<bar> > tol) is)"

definition dense_entries :: "(nat \<Rightarrow> nat \<Rightarrow> real) \<Rightarrow> real \<Rightarrow> nat \<Rightarrow> (int \<times> int \<times> real) list" where
  "dense_entries jac tol n = concat (map (\<lambda>j. column_entries jac tol j [0..<n]) [0..<n])"


text \<open>Concrete inputs for the instances stated below.\<close>

definition example_shape :: JacobianMatrixShape where
  "example_shape = declare_positions [Element 0 0, Row 1 [0, 1]] JacobianMatrixShape_new"

definition example_derivative :: "real list \<Rightarrow> real \<Rightarrow> int \<Rightarrow> int \<Rightarrow> real" where
  "example_derivative x t row col = (if row = col then 1 else t)"

definition example_holder :: SolutionHolder where
  "example_holder = \<lparr>sol_x = [[1, 1]], sol_t = [Fin 0]\<rparr>"

definition example_solution :: Solution where
  "example_solution = \<lparr>t_out = [Fin 1, Fin 2, Fin 3]\<rparr>"


section \<open>Properties of the solver options\<close>

text \<open>
  Claim C5: a default-constructed \<open>SolverOptions\<close> has \<open>atol\<close> equal to \<open>1.0e-6\<close> and
  \<open>dt_init\<close> equal to \<open>0.1\<close>.
\<close>

theorem SolverOptions_default_values:
  "atol SolverOptions_default = 1 / 10 ^ 6 \<and> dt_init SolverOptions_default = 1 / 10"
  by (simp add: SolverOptions_default_def)

text \<open>
  Claim C1: for every integer value of \<open>bdf_order\<close>, \<open>check_options\<close> leaves it unchanged
  when it lies in \<open>[1, BDF_MAX_ORDER]\<close> and sets it to exactly 1 when it lies outside;
  in particular the orders 0 and 99 both become 1 (99 for every bound below 99, such as
  the bound 6 of the spec).
\<close>

theorem check_options_bdf_order:
  "(1 \<le> bdf_order opt \<and> bdf_order opt \<le> BDF_MAX_ORDER
      \<longrightarrow> bdf_order (check_options BDF_MAX_ORDER opt) = bdf_order opt)
   \<and> (bdf_order opt < 1 \<or> BDF_MAX_ORDER < bdf_order opt
      \<longrightarrow> bdf_order (check_options BDF_MAX_ORDER opt) = 1)
   \<and> bdf_order (check_options BDF_MAX_ORDER (opt\<lparr>bdf_order := 0\<rparr>)) = 1
   \<and> (BDF_MAX_ORDER < 99
      \<longrightarrow> bdf_order (check_options BDF_MAX_ORDER (opt\<lparr>bdf_order := 99\<rparr>)) = 1)"
  by (simp add: check_options_def)

theorem check_options_bdf_order_witness:
  "bdf_order (check_options 6 example_options) = 3
   \<and> bdf_order (check_options 6 (example_options\<lparr>bdf_order := 7\<rparr>)) = 1
   \<and> bdf_order (check_options 6 (example_options\<lparr>bdf_order := - 2\<rparr>)) = 1
   \<and> bdf_order (check_options 6 (example_options\<lparr>bdf_order := 0\<rparr>)) = 1
   \<and> bdf_order (check_options 6 (example_options\<lparr>bdf_order := 99\<rparr>)) = 1"
  using check_options_bdf_order [of example_options 6]
    check_options_bdf_order [of "example_options\<lparr>bdf_order := 7\<rparr>" 6]
    check_options_bdf_order [of "example_options\<lparr>bdf_order := - 2\<rparr>" 6]
  by (simp add: example_options_def)

subsection \<open>The PARDISO parameters\<close>

lemma length_zero_iparm: "length (zero_iparm i iparm) = length iparm"
  by (induction i iparm rule: zero_iparm.induct) (subst zero_iparm.simps, simp)

lemma nth_zero_iparm:
  "k < length iparm \<Longrightarrow> zero_iparm i iparm ! k = (if i \<le> k \<and> k < 64 then 0 else iparm ! k)"
proof (induction i iparm rule: zero_iparm.induct)
  case (1 i iparm)
  show ?case
  proof (cases "i < 64")
    case True
    with 1 show ?thesis
      by (subst zero_iparm.simps) (auto simp: nth_list_update)
  next
    case False
    then show ?thesis by (subst zero_iparm.simps) simp
  qed
qed

lemma zero_iparm_all:
  assumes "64 \<le> length iparm"
  shows "zero_iparm 0 iparm = replicate 64 0 @ drop 64 iparm"
proof (rule nth_equalityI)
  show "length (zero_iparm 0 iparm) = length (replicate 64 0 @ drop 64 iparm)"
    using assms by (simp add: length_zero_iparm)
next
  fix k assume "k < length (zero_iparm 0 iparm)"
  then have k: "k < length iparm" by (simp add: length_zero_iparm)
  show "zero_iparm 0 iparm ! k = (replicate 64 0 @ drop 64 iparm) ! k"
    using k assms by (simp add: nth_zero_iparm nth_append)
qed

lemma assign_iparm_zeros: "assign_iparm opt (replicate 64 0) = iparm_written opt"
  by (simp add: assign_iparm_def iparm_written_def Let_def eval_nat_numeral)

lemma assign_iparm_append:
  "length xs = 64 \<Longrightarrow> assign_iparm opt (xs @ ys) = assign_iparm opt xs @ ys"
  by (simp add: assign_iparm_def Let_def list_update_append nth_append)

lemma length_iparm_written: "length (iparm_written opt) = 64"
  by (simp add: iparm_written_def Let_def)

lemma set_iparm_for_pardiso_eq:
  "64 \<le> length iparm \<Longrightarrow>
   set_iparm_for_pardiso opt iparm = Some (iparm_written opt @ drop 64 iparm)"
  by (simp add: set_iparm_for_pardiso_def zero_iparm_all assign_iparm_append
      assign_iparm_zeros)

lemma set_iparm_for_pardiso_short:
  "length iparm < 64 \<Longrightarrow> set_iparm_for_pardiso opt iparm = None"
  by (simp add: set_iparm_for_pardiso_def)

lemma iparm_written_nth:
  "iparm_written opt ! 7 = refinement_steps opt"
  "iparm_written opt ! 23 = parallel_fact_control opt"
  "iparm_written opt ! 10 = (if parallel_fact_control opt = 1 then 0 else 1)"
  "iparm_written opt ! 12 = (if parallel_fact_control opt = 1 then 0 else 1)"
  by (simp_all add: iparm_written_def Let_def eval_nat_numeral)

text \<open>
  Claim C6: \<open>set_iparm_for_pardiso\<close> writes all 64 entries of \<open>iparm\<close> (the first 64
  entries of the result are \<open>iparm_written opt\<close>, whatever the array held before, and
  nothing beyond them changes); \<open>iparm[7]\<close> is \<open>refinement_steps\<close>, \<open>iparm[23]\<close> is
  \<open>parallel_fact_control\<close>, and \<open>iparm[10]\<close> and \<open>iparm[12]\<close> are 0 exactly when
  \<open>parallel_fact_control\<close> is 1, and 1 otherwise.
\<close>

theorem set_iparm_for_pardiso_writes:
  assumes "64 \<le> length iparm"
  shows "\<exists>r. set_iparm_for_pardiso opt iparm = Some r \<and> length r = length iparm
     \<and> take 64 r = iparm_written opt \<and> drop 64 r = drop 64 iparm
     \<and> r ! 7 = refinement_steps opt \<and> r ! 23 = parallel_fact_control opt
     \<and> r ! 10 = (if parallel_fact_control opt = 1 then 0 else 1)
     \<and> r ! 12 = (if parallel_fact_control opt = 1 then 0 else 1)"
proof -
  let ?r = "iparm_written opt @ drop 64 iparm"
  have r: "set_iparm_for_pardiso opt iparm = Some ?r"
    using assms by (rule set_iparm_for_pardiso_eq)
  have len: "length ?r = length iparm"
    using assms by (simp add: length_iparm_written)
  have tk: "take 64 ?r = iparm_written opt" "drop 64 ?r = drop 64 iparm"
    by (simp_all add: length_iparm_written)
  have nths: "?r ! 7 = refinement_steps opt" "?r ! 23 = parallel_fact_control opt"
    "?r ! 10 = (if parallel_fact_control opt = 1 then 0 else 1)"
    "?r ! 12 = (if parallel_fact_control opt = 1 then 0 else 1)"
    by (simp_all add: nth_append length_iparm_written iparm_written_nth)
  from r len tk nths show ?thesis by blast
qed

theorem set_iparm_for_pardiso_writes_witness:
  "64 \<le> length (replicate 64 (7::int)) \<and>
   (\<exists>r. set_iparm_for_pardiso example_options (replicate 64 7) = Some r \<and> length r = 64
     \<and> take 64 r = iparm_written example_options
     \<and> r ! 7 = 2 \<and> r ! 23 = 1 \<and> r ! 10 = 0 \<and> r ! 12 = 0)"
proof -
  have h: "64 \<le> length (replicate 64 (7::int))" by simp
  show ?thesis
    using h set_iparm_for_pardiso_writes [OF h, of example_options]
    by (auto simp: example_options_def)
qed

section \<open>Properties of the Jacobian strategies\<close>

subsection \<open>Dense-then-sparsify\<close>

lemma sparsify_column_eq:
  "sparsify_column jac tol n j i J =
     J\<lparr>triplets := triplets J @ column_entries jac tol j [i..<n]\<rparr>"
proof (induction jac tol n j i J rule: sparsify_column.induct)
  case (1 jac tol n j i J)
  show ?case
  proof (cases "i < n")
    case True
    then have upt: "[i..<n] = i # [Suc i..<n]" by (rule upt_conv_Cons)
    show ?thesis
      using True 1
      by (subst sparsify_column.simps) (simp add: upt column_entries_def sm_insert_def Let_def)
  next
    case False
    then show ?thesis
      by (subst sparsify_column.simps) (simp add: column_entries_def)
  qed
qed

lemma sparsify_columns_eq:
  "sparsify_columns jac tol n j J =
     J\<lparr>triplets := triplets J @ concat (map (\<lambda>j. column_entries jac tol j [0..<n]) [j..<n])\<rparr>"
proof (induction jac tol n j J rule: sparsify_columns.induct)
  case (1 jac tol n j J)
  show ?case
  proof (cases "j < n")
    case True
    then have upt: "[j..<n] = j # [Suc j..<n]" by (rule upt_conv_Cons)
    show ?thesis
      using True 1
      by (subst sparsify_columns.simps) (simp add: upt sparsify_column_eq)
  next
    case False
    then show ?thesis
      by (subst sparsify_columns.simps) simp
  qed
qed

lemma set_dense_entries_nat:
  "set (dense_entries jac tol n) =
     {(int i, int j, jac i j) | i j. i < n \<and> j < n \<and> \<bar>jac i j\<bar> > tol}"
  by (auto simp: dense_entries_def column_entries_def)

lemma set_dense_entries:
  "(i, j, val) \<in> set (dense_entries jac tol n) \<longleftrightarrow>
     0 \<le> i \<and> i < int n \<and> 0 \<le> j \<and> j < int n \<and> val = jac (nat i) (nat j) \<and> \<bar>val\<bar> > tol"
proof
  assume "(i, j, val) \<in> set (dense_entries jac tol n)"
  then obtain j' i' where "j' < n" "i' < n" "\<bar>jac i' j'\<bar> > tol" "(i, j, val) = (int i', int j', jac i' j')"
    unfolding set_dense_entries_nat by blast
  then show "0 \<le> i \<and> i < int n \<and> 0 \<le> j \<and> j < int n \<and> val = jac (nat i) (nat j) \<and> \<bar>val\<bar> > tol"
    by simp
next
  assume a: "0 \<le> i \<and> i < int n \<and> 0 \<le> j \<and> j < int n \<and> val = jac (nat i) (nat j) \<and> \<bar>val\<bar> > tol"
  then have "nat i < n \<and> nat j < n \<and> \<bar>jac (nat i) (nat j)\<bar> > tol"
    and "(i, j, val) = (int (nat i), int (nat j), jac (nat i) (nat j))" by auto
  then show "(i, j, val) \<in> set (dense_entries jac tol n)"
    unfolding set_dense_entries_nat by blast
qed

lemma position_column_entries:
  "map position (column_entries jac tol j is) = map (\<lambda>i. (int i, int j)) (filter (\<lambda>i. \<bar>jac i j\<bar> > tol) is)"
  by (simp add: column_entries_def position_def comp_def)

lemma distinct_columns:
  "distinct is \<Longrightarrow> distinct js \<Longrightarrow>
   distinct (map position (concat (map (\<lambda>j. column_entries jac tol j is) js)))"
proof (induction js)
  case Nil
  then show ?case by simp
next
  case (Cons j js)
  have "distinct (map position (column_entries jac tol j is))"
    using Cons.prems(1) by (simp add: position_column_entries distinct_map inj_on_def)
  moreover have "distinct (map position (concat (map (\<lambda>j. column_entries jac tol j is) js)))"
    using Cons by simp
  moreover have "set (map position (column_entries jac tol j is))
      \<inter> set (map position (concat (map (\<lambda>j. column_entries jac tol j is) js))) = {}"
    using Cons.prems(2) by (auto simp: column_entries_def position_def)
  ultimately show ?case by simp
qed

lemma distinct_dense_entries: "distinct (map position (dense_entries jac tol n))"
  unfolding dense_entries_def by (rule distinct_columns) simp_all

text \<open>
  Claim C2: for every state vector \<open>x\<close> of size \<open>N\<close> and every time \<open>t\<close>,
  \<open>JacobianAutomatic::operator()\<close> inserts an entry \<open>(i, j, val)\<close> into \<open>J\<close> if and only
  if \<open>val\<close> is the \<open>(i, j)\<close> entry of the dense \<open>N\<close>-by-\<open>N\<close> Jacobian and
  \<open>|val| > DAECPP_SPARSE_MATRIX_ELEMENT_TOLERANCE\<close>, strictly; entries of magnitude at
  or below the tolerance are never inserted. Moreover no position is inserted twice,
  what \<open>J\<close> held before is kept, and \<open>reserve\<close> is not called.
\<close>

theorem JacobianAutomatic_call_inserts:
  "\<exists>new. triplets (JacobianAutomatic_call jacobian tol J x t) = triplets J @ new
     \<and> reserve_calls (JacobianAutomatic_call jacobian tol J x t) = reserve_calls J
     \<and> distinct (map position new)
     \<and> (\<forall>i j val. (i, j, val) \<in> set new \<longleftrightarrow>
          0 \<le> i \<and> i < int (length x) \<and> 0 \<le> j \<and> j < int (length x)
          \<and> val = jacobian x t (nat i) (nat j)
          \<and> \<bar>val\<bar> > tol)"
proof -
  let ?new = "dense_entries (jacobian x t) tol (length x)"
  have "JacobianAutomatic_call jacobian tol J x t = J\<lparr>triplets := triplets J @ ?new\<rparr>"
    by (simp add: JacobianAutomatic_call_def sparsify_columns_eq dense_entries_def Let_def)
  then have "triplets (JacobianAutomatic_call jacobian tol J x t) = triplets J @ ?new"
    and "reserve_calls (JacobianAutomatic_call jacobian tol J x t) = reserve_calls J"
    by simp_all
  moreover have "distinct (map position ?new)" by (rule distinct_dense_entries)
  moreover have "\<forall>i j val. (i, j, val) \<in> set ?new \<longleftrightarrow>
          0 \<le> i \<and> i < int (length x) \<and> 0 \<le> j \<and> j < int (length x)
          \<and> val = jacobian x t (nat i) (nat j)
          \<and> \<bar>val\<bar> > tol"
    by (simp only: set_dense_entries) simp
  ultimately show ?thesis by blast
qed


subsection \<open>Shape-hinted differentiation\<close>

lemma differentiate_elements_eq:
  "\<forall>p \<in> set Jn. 0 \<le> snd p \<and> snd p < int (length x) \<Longrightarrow>
   differentiate_elements derivative x t Jn J =
     Some (J\<lparr>triplets := triplets J @ map (\<lambda>p. (fst p, snd p, derivative x t (fst p) (snd p))) Jn\<rparr>)"
  by (induction Jn arbitrary: J) (simp_all add: sm_insert_def)

lemma differentiate_elements_out_of_range:
  "\<exists>p \<in> set Jn. snd p < 0 \<or> int (length x) \<le> snd p \<Longrightarrow>
   differentiate_elements derivative x t Jn J = None"
  by (induction Jn arbitrary: J) auto

lemma add_element_row_eq:
  "add_element_row i js s = s\<lparr>m_Jn := m_Jn s @ map (\<lambda>j. (i, j)) js\<rparr>"
  by (induction js arbitrary: s) simp_all

lemma declare_position_eq:
  "declare_position d s = s\<lparr>m_Jn := m_Jn s @ positions_of d\<rparr>"
  by (cases d) (simp_all add: add_element_def add_element_row_eq)

lemma declare_positions_eq:
  "declare_positions ds s = s\<lparr>m_Jn := m_Jn s @ declared_positions ds\<rparr>"
  by (induction ds arbitrary: s) (simp_all add: declared_positions_def declare_position_eq)

lemma position_derivative:
  "map position (map (\<lambda>p. (fst p, snd p, f (fst p) (snd p))) Jn) = Jn"
  by (induction Jn) (simp_all add: position_def)

text \<open>
  Claim C3: for every list of positions declared through \<open>add_element\<close> (on top of any
  earlier state \<open>s0\<close> of the object), a call to \<open>JacobianMatrixShape::operator()\<close> inserts
  into \<open>J\<close> exactly one entry per declared position, in declaration order, and no other
  entry; afterwards \<open>m_N_elements\<close> is the number of declared positions; and \<open>J.reserve\<close>
  is invoked, with the previous hint, only when that hint is non-zero. The declared
  columns lie in \<open>[0, size)\<close>, as the subscript \<open>x_[Jn.second]\<close> requires.
\<close>

theorem JacobianMatrixShape_call_inserts:
  assumes "s = declare_positions ds s0"
    and "\<forall>p \<in> set (m_Jn s). 0 \<le> snd p \<and> snd p < int (length x)"
  shows "m_Jn s = m_Jn s0 @ declared_positions ds
     \<and> (\<exists>J' s' new. JacobianMatrixShape_call derivative s J x t = Some (J', s')
          \<and> triplets J' = triplets J @ new
          \<and> map position new = m_Jn s
          \<and> m_Jn s' = m_Jn s
          \<and> m_N_elements s' = int (length (m_Jn s))
          \<and> reserve_calls J' = reserve_calls J @ (if m_N_elements s \<noteq> 0 then [m_N_elements s] else []))"
proof -
  let ?new = "map (\<lambda>p. (fst p, snd p, derivative x t (fst p) (snd p))) (m_Jn s)"
  let ?J1 = "if m_N_elements s \<noteq> 0 then sm_reserve (m_N_elements s) J else J"
  let ?J' = "?J1\<lparr>triplets := triplets ?J1 @ ?new\<rparr>"
  let ?s' = "s\<lparr>m_N_elements := int (length (m_Jn s))\<rparr>"
  have decl: "m_Jn s = m_Jn s0 @ declared_positions ds"
    using assms(1) by (simp add: declare_positions_eq)
  have "differentiate_elements derivative x t (m_Jn s) ?J1 = Some ?J'"
    using assms(2) by (rule differentiate_elements_eq)
  then have call: "JacobianMatrixShape_call derivative s J x t = Some (?J', ?s')"
    by (simp add: JacobianMatrixShape_call_def Let_def)
  have tr: "triplets ?J' = triplets J @ ?new"
    by (simp add: sm_reserve_def)
  have pos: "map position ?new = m_Jn s"
    by (rule position_derivative)
  have st: "m_Jn ?s' = m_Jn s" "m_N_elements ?s' = int (length (m_Jn s))"
    by simp_all
  have res: "reserve_calls ?J' = reserve_calls J @ (if m_N_elements s \<noteq> 0 then [m_N_elements s] else [])"
    by (simp add: sm_reserve_def)
  from call tr pos st res have "\<exists>J' s' new. JacobianMatrixShape_call derivative s J x t = Some (J', s')
          \<and> triplets J' = triplets J @ new
          \<and> map position new = m_Jn s
          \<and> m_Jn s' = m_Jn s
          \<and> m_N_elements s' = int (length (m_Jn s))
          \<and> reserve_calls J' = reserve_calls J @ (if m_N_elements s \<noteq> 0 then [m_N_elements s] else [])"
    by blast
  with decl show ?thesis by blast
qed

theorem JacobianMatrixShape_call_inserts_witness:
  "m_Jn example_shape = [(0, 0), (1, 0), (1, 1)]
   \<and> (\<exists>J' s' new. JacobianMatrixShape_call example_derivative example_shape
                      (sparse_matrix_empty\<lparr>triplets := [(5, 5, 1)]\<rparr>) [1, 2] 3 = Some (J', s')
          \<and> triplets J' = [(5, 5, 1)] @ new
          \<and> map position new = [(0, 0), (1, 0), (1, 1)]
          \<and> m_N_elements s' = 3
          \<and> reserve_calls J' = [])
   \<and> (\<exists>J' s'. JacobianMatrixShape_call example_derivative (example_shape\<lparr>m_N_elements := 3\<rparr>)
                      sparse_matrix_empty [1, 2] 3 = Some (J', s')
          \<and> map position (triplets J') = [(0, 0), (1, 0), (1, 1)]
          \<and> m_N_elements s' = 3
          \<and> reserve_calls J' = [3])"
proof -
  have h1: "example_shape = declare_positions [Element 0 0, Row 1 [0, 1]] JacobianMatrixShape_new"
    by (simp add: example_shape_def)
  have m: "m_Jn example_shape = [(0, 0), (1, 0), (1, 1)]"
    by (simp add: example_shape_def JacobianMatrixShape_new_def add_element_def)
  have n: "m_N_elements example_shape = 0"
    by (simp add: example_shape_def JacobianMatrixShape_new_def add_element_def)
  have h2: "\<forall>p \<in> set (m_Jn example_shape). 0 \<le> snd p \<and> snd p < int (length [1::real, 2])"
    by (simp add: m)
  let ?J = "sparse_matrix_empty\<lparr>triplets := [(5, 5, 1)]\<rparr>"
  from JacobianMatrixShape_call_inserts [OF h1 h2, of example_derivative ?J 3]
  obtain J' s' new where
    "JacobianMatrixShape_call example_derivative example_shape ?J [1, 2] 3 = Some (J', s')"
    "triplets J' = triplets ?J @ new"
    "map position new = m_Jn example_shape"
    "m_N_elements s' = int (length (m_Jn example_shape))"
    "reserve_calls J' = reserve_calls ?J
        @ (if m_N_elements example_shape \<noteq> 0 then [m_N_elements example_shape] else [])"
    by blast
  then have first: "\<exists>J' s' new. JacobianMatrixShape_call example_derivative example_shape ?J [1, 2] 3
        = Some (J', s')
      \<and> triplets J' = [(5, 5, 1)] @ new
      \<and> map position new = [(0, 0), (1, 0), (1, 1)]
      \<and> m_N_elements s' = 3
      \<and> reserve_calls J' = []"
    by (simp add: m n sparse_matrix_empty_def)
  let ?s = "example_shape\<lparr>m_N_elements := 3\<rparr>"
  have g1: "?s = declare_positions [] ?s" by simp
  have g2: "\<forall>p \<in> set (m_Jn ?s). 0 \<le> snd p \<and> snd p < int (length [1::real, 2])"
    by (simp add: m)
  from JacobianMatrixShape_call_inserts [OF g1 g2, of example_derivative sparse_matrix_empty 3]
  obtain K' u' new' where
    "JacobianMatrixShape_call example_derivative ?s sparse_matrix_empty [1, 2] 3 = Some (K', u')"
    "triplets K' = triplets sparse_matrix_empty @ new'"
    "map position new' = m_Jn ?s"
    "m_N_elements u' = int (length (m_Jn ?s))"
    "reserve_calls K' = reserve_calls sparse_matrix_empty
        @ (if m_N_elements ?s \<noteq> 0 then [m_N_elements ?s] else [])"
    by blast
  then have second: "\<exists>J' s'. JacobianMatrixShape_call example_derivative ?s sparse_matrix_empty [1, 2] 3
        = Some (J', s')
      \<and> map position (triplets J') = [(0, 0), (1, 0), (1, 1)]
      \<and> m_N_elements s' = 3
      \<and> reserve_calls J' = [3]"
    by (simp add: m sparse_matrix_empty_def)
  from m first second show ?thesis by blast
qed

section \<open>Properties of the right-hand side of the test\<close>

subsection \<open>Rounding of a representable number\<close>

lemma find_exponent:
  "a \<le> k \<Longrightarrow> k \<le> b \<Longrightarrow> k = a \<or> 2 powi k \<le> \<bar>r::real\<bar> \<Longrightarrow> \<bar>r\<bar> < 2 powi (k + 1) \<Longrightarrow>
   find (\<lambda>j. \<bar>r\<bar> < 2 powi (j + 1)) [a..b] = Some k"
proof (induction a b rule: upto.induct)
  case (1 i j)
  from 1(2,3) have ij: "i \<le> j" by simp
  then have unf: "[i..j] = i # [i + 1..j]" by (rule upto_rec1)
  show ?case
  proof (cases "k = i")
    case True
    with 1(5) show ?thesis by (simp add: unf)
  next
    case False
    with 1(2) have lt: "i + 1 \<le> k" by simp
    from False 1(4) have lo: "2 powi k \<le> \<bar>r\<bar>" by simp
    have "(2::real) powi (i + 1) \<le> 2 powi k"
      using lt by (intro power_int_increasing) simp_all
    with lo have no: "\<not> \<bar>r\<bar> < 2 powi (i + 1)" by simp
    have "find (\<lambda>j. \<bar>r\<bar> < 2 powi (j + 1)) [i + 1..j] = Some k"
      using "1.IH" [OF ij lt 1(3)] lo 1(5) by simp
    with no show ?thesis by (simp add: unf)
  qed
qed

lemma rne_of_int: "rne (of_int m) = m"
  by (simp add: rne_def)

text \<open>A number of exponent \<open>k\<close> that is a multiple of \<open>2^(k-52)\<close> rounds to itself.\<close>

lemma round_double_exact:
  assumes "- 1022 \<le> k" "k \<le> 1023" "k = - 1022 \<or> 2 powi k \<le> \<bar>r\<bar>" "\<bar>r\<bar> < 2 powi (k + 1)"
    and "r / 2 powi (k - 52) = of_int m"
  shows "round_double r = Fin r"
proof -
  have f: "find (\<lambda>j. \<bar>r\<bar> < 2 powi (j + 1)) [- 1022..1023] = Some k"
    using assms(1-4) by (rule find_exponent)
  have pos: "(2::real) powi (k - 52) \<noteq> 0" by simp
  have "r = of_int m * 2 powi (k - 52)"
    using assms(5) pos by (metis nonzero_divide_eq_eq)
  then have v: "of_int (rne (r / 2 powi (k - 52))) * 2 powi (k - 52) = r"
    using assms(5) by (simp only: rne_of_int)
  have "(2::real) powi (k + 1) \<le> 2 powi 1024"
    using assms(2) by (intro power_int_increasing) simp_all
  with assms(4) have "\<not> 2 powi 1024 \<le> \<bar>r\<bar>" by simp
  with f v show ?thesis by (simp add: round_double_def Let_def)
qed

lemma round_double_60: "round_double 60 = Fin 60"
  by (rule round_double_exact [where k = 5 and m = "60 * 2 ^ 47"])
    (simp_all add: power_int_minus)

lemma round_double_3: "round_double 3 = Fin 3"
  by (rule round_double_exact [where k = 1 and m = "3 * 2 ^ 51"])
    (simp_all add: power_int_minus)

subsection \<open>The evaluation of the test\<close>

text \<open>
  Claim C7: for \<open>f(x, t) = [x[0], x[1] * t]\<close>, the evaluation on a state \<open>x\<close> of two
  entries, \<open>x = [4, 6]\<close> among them, at any time \<open>t\<close> leaves \<open>[x[0], x[1] * t]\<close>, of
  length 2, in the output vector, whatever the two entries of that vector were before;
  the product is the product of doubles, as in the expectation \<open>6.0 * t\<close> of the test.
  At \<open>x = [4, 6]\<close> and \<open>t = 10\<close> the result is \<open>[4, 60]\<close>.
\<close>

theorem TestRHS_example:
  assumes "length f = 2"
  shows "TestRHS f [a, b] t = Some (True, [a, dmul b t])
     \<and> TestRHS f [Fin 4, Fin 6] t = Some (True, [Fin 4, dmul (Fin 6) t])
     \<and> TestRHS f [Fin 4, Fin 6] (Fin 10) = Some (True, [Fin 4, Fin 60])"
proof -
  from assms obtain u v where "f = [u, v]"
    by (cases f; cases "tl f") auto
  then show ?thesis by (simp add: TestRHS_def round_double_60)
qed

theorem TestRHS_example_witness:
  "length [Fin 0, Fin 0] = 2
   \<and> TestRHS [Fin 0, Fin 0] [Fin 4, Fin 6] (Fin 10) = Some (True, [Fin 4, Fin 60])
   \<and> TestRHS [NaN, PInf] [Fin 4, Fin 6] (Fin (1 / 2)) = Some (True, [Fin 4, Fin 3])
   \<and> TestRHS [Fin 0, Fin 0] [Fin 4, Fin 6] PInf = Some (True, [Fin 4, PInf])
   \<and> TestRHS [Fin 0, Fin 0] [Fin 4, Fin 6] NaN = Some (True, [Fin 4, NaN])"
  using TestRHS_example [of "[Fin 0, Fin 0]" "Fin 4" "Fin 6" "Fin 10"]
    TestRHS_example [of "[NaN, PInf]" "Fin 4" "Fin 6" "Fin (1 / 2)"]
    TestRHS_example [of "[Fin 0, Fin 0]" "Fin 4" "Fin 6" PInf]
    TestRHS_example [of "[Fin 0, Fin 0]" "Fin 4" "Fin 6" NaN]
  by (simp add: round_double_3)

section \<open>Properties of the solution managers\<close>

text \<open>
  Claim C8: for every state vector and every time, \<open>SolutionManager::operator()\<close> and
  \<open>Solution::operator()\<close> return 0, whatever the output times of the \<open>Solution\<close> and the
  holder are, so neither ever asks the integration to stop.
\<close>

theorem managers_return_zero:
  "SolutionManager_call x t = 0 \<and> fst (Solution_call S x t h) = 0"
  by (simp add: SolutionManager_call_def Solution_call_def)

text \<open>
  Claim C9: a call to \<open>Solution::operator()\<close> appends exactly one element to both \<open>x\<close>
  and \<open>t\<close> of the holder, or to neither; hence the equality of their sizes, which
  \<open>SolutionHolder::print\<close> asserts, is preserved by every call.
\<close>

theorem Solution_call_both_or_neither:
  "((sol_x (snd (Solution_call S x t h)) = sol_x h @ [x]
       \<and> sol_t (snd (Solution_call S x t h)) = sol_t h @ [t])
     \<or> (sol_x (snd (Solution_call S x t h)) = sol_x h
       \<and> sol_t (snd (Solution_call S x t h)) = sol_t h))
   \<and> (print_ASSERT h \<longrightarrow> print_ASSERT (snd (Solution_call S x t h)))"
  by (simp add: Solution_call_def print_ASSERT_def)

theorem Solution_call_both_or_neither_witness:
  "print_ASSERT example_holder
   \<and> print_ASSERT (snd (Solution_call example_solution [5, 5] (Fin 2) example_holder))
   \<and> print_ASSERT (snd (Solution_call example_solution [5, 5] (Fin 4) example_holder))
   \<and> print_ASSERT (snd (Solution_call example_solution [5, 5] NaN example_holder))"
proof -
  have h: "print_ASSERT example_holder"
    by (simp add: print_ASSERT_def example_holder_def)
  with Solution_call_both_or_neither [of example_solution "[5, 5]" "Fin 2" example_holder]
    Solution_call_both_or_neither [of example_solution "[5, 5]" "Fin 4" example_holder]
    Solution_call_both_or_neither [of example_solution "[5, 5]" NaN example_holder]
  show ?thesis by blast
qed

subsection \<open>Comparison of doubles\<close>

lemma dless_dkey: "a \<noteq> NaN \<Longrightarrow> b \<noteq> NaN \<Longrightarrow> dless a b \<longleftrightarrow> dkey a < dkey b"
  by (cases a; cases b) simp_all

lemma dkey_inj: "dkey a = dkey b \<Longrightarrow> a = b"
  by (cases a; cases b) simp_all

lemma dless_NaN: "\<not> dless a NaN" "\<not> dless NaN a"
  by (cases a, simp_all)+

lemma list_ex_deq: "NaN \<notin> set xs \<Longrightarrow> list_ex (deq t) xs \<longleftrightarrow> t \<noteq> NaN \<and> t \<in> set xs"
  by (auto simp: list_ex_iff deq_def)

subsection \<open>Binary search\<close>

text \<open>At NaN every comparison fails: the search stops at the start of the range.\<close>

lemma lower_bound_NaN: "lower_bound xs first len NaN = first"
proof (induction xs first len "NaN" rule: lower_bound.induct)
  case (1 xs first len)
  show ?case
  proof (cases "0 < len")
    case True
    with 1 show ?thesis
      by (subst lower_bound.simps) (simp add: Let_def dless_NaN)
  next
    case False
    then show ?thesis by (subst lower_bound.simps) simp
  qed
qed

lemma binary_search_NaN: "binary_search xs NaN \<longleftrightarrow> xs \<noteq> []"
  by (auto simp: binary_search_def lower_bound_NaN dless_NaN)

lemma sorted_dkey_nth:
  "sorted (map dkey xs) \<Longrightarrow> i \<le> j \<Longrightarrow> j < length xs \<Longrightarrow> dkey (xs ! i) \<le> dkey (xs ! j)"
  using sorted_nth_mono [of "map dkey xs" i j] by simp

lemma lower_bound_partition:
  assumes "sorted (map dkey xs)" "NaN \<notin> set xs" "val \<noteq> NaN" "first + len \<le> length xs"
    "\<forall>k<first. dkey (xs ! k) < dkey val"
    "\<forall>k. first + len \<le> k \<and> k < length xs \<longrightarrow> dkey val \<le> dkey (xs ! k)"
  shows "lower_bound xs first len val \<le> length xs
     \<and> (\<forall>k<lower_bound xs first len val. dkey (xs ! k) < dkey val)
     \<and> (\<forall>k. lower_bound xs first len val \<le> k \<and> k < length xs \<longrightarrow> dkey val \<le> dkey (xs ! k))"
  using assms
proof (induction xs first len val rule: lower_bound.induct)
  case (1 xs first len val)
  show ?case
  proof (cases "0 < len")
    case False
    with "1.prems" show ?thesis
      by (subst (1 2 3) lower_bound.simps) simp
  next
    case True
    define half where "half = len div 2"
    define middle where "middle = first + half"
    have hl: "half < len" using True by (simp add: half_def)
    have mid: "middle < length xs" using hl "1.prems"(4) by (simp add: middle_def)
    then have "xs ! middle \<noteq> NaN" using "1.prems"(2) by (metis nth_mem)
    then have cmp: "dless (xs ! middle) val \<longleftrightarrow> dkey (xs ! middle) < dkey val"
      using "1.prems"(3) by (rule dless_dkey)
    show ?thesis
    proof (cases "dless (xs ! middle) val")
      case lt: True
      have below: "\<forall>k<middle + 1. dkey (xs ! k) < dkey val"
      proof (intro allI impI)
        fix k assume "k < middle + 1"
        then have "k \<le> middle" by simp
        with "1.prems"(1) mid have "dkey (xs ! k) \<le> dkey (xs ! middle)"
          by (simp add: sorted_dkey_nth)
        with lt cmp show "dkey (xs ! k) < dkey val" by simp
      qed
      have bound: "middle + 1 + (len - half - 1) \<le> length xs"
        using hl "1.prems"(4) by (simp add: middle_def)
      have above: "\<forall>k. middle + 1 + (len - half - 1) \<le> k \<and> k < length xs
          \<longrightarrow> dkey val \<le> dkey (xs ! k)"
        using hl "1.prems"(6) by (simp add: middle_def)
      have eq: "lower_bound xs first len val = lower_bound xs (middle + 1) (len - half - 1) val"
        using True lt by (subst lower_bound.simps) (simp add: Let_def half_def middle_def)
      show ?thesis
        unfolding eq
        using "1.IH"(1) [OF True half_def middle_def lt "1.prems"(1,2,3) bound below above] .
    next
      case ge: False
      have bound: "first + half \<le> length xs" using mid by (simp add: middle_def)
      have above: "\<forall>k. first + half \<le> k \<and> k < length xs \<longrightarrow> dkey val \<le> dkey (xs ! k)"
      proof (intro allI impI)
        fix k assume k: "first + half \<le> k \<and> k < length xs"
        then have "middle \<le> k" "k < length xs" by (simp_all add: middle_def)
        with "1.prems"(1) have "dkey (xs ! middle) \<le> dkey (xs ! k)"
          by (simp add: sorted_dkey_nth)
        with ge cmp show "dkey val \<le> dkey (xs ! k)" by simp
      qed
      have eq: "lower_bound xs first len val = lower_bound xs first half val"
        using True ge by (subst lower_bound.simps) (simp add: Let_def half_def middle_def)
      show ?thesis
        unfolding eq
        using "1.IH"(2) [OF True half_def middle_def ge "1.prems"(1,2,3) bound "1.prems"(5) above] .
    qed
  qed
qed

lemma binary_search_iff:
  assumes "sorted (map dkey xs)" "NaN \<notin> set xs" "val \<noteq> NaN"
  shows "binary_search xs val \<longleftrightarrow> val \<in> set xs"
proof -
  define i where "i = lower_bound xs 0 (length xs) val"
  have "i \<le> length xs \<and> (\<forall>k<i. dkey (xs ! k) < dkey val)
      \<and> (\<forall>k. i \<le> k \<and> k < length xs \<longrightarrow> dkey val \<le> dkey (xs ! k))"
    unfolding i_def using assms by (intro lower_bound_partition) auto
  then have le: "i \<le> length xs" and below: "\<And>k. k < i \<Longrightarrow> dkey (xs ! k) < dkey val"
    and above: "\<And>k. i \<le> k \<Longrightarrow> k < length xs \<Longrightarrow> dkey val \<le> dkey (xs ! k)" by blast+
  have bs: "binary_search xs val \<longleftrightarrow> i \<noteq> length xs \<and> \<not> dless val (xs ! i)"
    by (simp add: binary_search_def i_def Let_def)
  have cmp: "k < length xs \<Longrightarrow> dless val (xs ! k) \<longleftrightarrow> dkey val < dkey (xs ! k)" for k
    using assms(2,3) by (intro dless_dkey) (auto simp: in_set_conv_nth)
  show ?thesis
  proof
    assume "binary_search xs val"
    with bs le have i: "i < length xs" and "\<not> dless val (xs ! i)" by simp_all
    with cmp [of i] have "\<not> dkey val < dkey (xs ! i)" by simp
    moreover from above [of i] i have "dkey val \<le> dkey (xs ! i)" by simp
    ultimately have "dkey (xs ! i) = dkey val" by simp
    then have "xs ! i = val" by (rule dkey_inj)
    with i show "val \<in> set xs" by (metis nth_mem)
  next
    assume "val \<in> set xs"
    then obtain k where k: "k < length xs" "xs ! k = val" by (auto simp: in_set_conv_nth)
    have "i \<le> k"
    proof (rule ccontr)
      assume "\<not> i \<le> k"
      then have "dkey (xs ! k) < dkey val" using below [of k] by simp
      with k show False by simp
    qed
    with k have i: "i < length xs" by simp
    from assms(1) \<open>i \<le> k\<close> k(1) have "dkey (xs ! i) \<le> dkey (xs ! k)"
      by (simp add: sorted_dkey_nth)
    with k have "\<not> dkey val < dkey (xs ! i)" by simp
    with cmp [OF i] i bs show "binary_search xs val" by simp
  qed
qed

subsection \<open>Sorting\<close>

lemma all_NaN: "list_all (\<lambda>x. x = NaN) xs \<longleftrightarrow> xs = replicate (length xs) NaN"
  by (induction xs) auto

lemma std_sort_perm:
  assumes "mset xs = mset ys"
  shows "std_sort xs = std_sort ys"
proof -
  have set: "set xs = set ys" using assms by (rule mset_eq_setD)
  have len: "length xs = length ys" using assms by (rule mset_eq_length)
  show ?thesis
  proof (cases "NaN \<in> set xs")
    case False
    have "mset xs = mset (sort_key dkey ys)" using assms by simp
    moreover have "inj_on dkey (set xs)" by (auto simp: inj_on_def dest: dkey_inj)
    moreover have "sorted (map dkey (sort_key dkey ys))" by simp
    ultimately have "sort_key dkey xs = sort_key dkey ys" by (rule sort_key_inj_key_eq)
    with False set show ?thesis by (simp add: std_sort_def)
  next
    case True
    have all: "list_all (\<lambda>x. x = NaN) xs \<longleftrightarrow> list_all (\<lambda>x. x = NaN) ys"
      using set by (simp add: list_all_iff)
    show ?thesis
    proof (cases "list_all (\<lambda>x. x = NaN) xs")
      case a: True
      with all have "xs = replicate (length xs) NaN" "ys = replicate (length ys) NaN"
        by (simp_all add: all_NaN [symmetric])
      with len have "xs = ys" by simp
      then show ?thesis by simp
    next
      case False
      with all True set show ?thesis by (simp add: std_sort_def)
    qed
  qed
qed

subsection \<open>The output-time filter\<close>

lemma Solution_new_NaN_free:
  assumes "t_output \<noteq> []" "NaN \<notin> set t_output"
  shows "Solution_new t_output = Some \<lparr>t_out = sort_key dkey t_output\<rparr>"
  using assms by (simp add: Solution_new_def std_sort_def)

lemma Solution_new_perm:
  assumes "mset t_output' = mset t_output"
  shows "Solution_new t_output' = Solution_new t_output"
proof -
  have "length t_output' = length t_output" using assms by (rule mset_eq_length)
  moreover have "std_sort t_output' = std_sort t_output" using assms by (rule std_sort_perm)
  ultimately show ?thesis
    by (cases "t_output = []") (simp_all add: Solution_new_def)
qed

lemma Solution_call_filter:
  assumes "t_output \<noteq> []" "NaN \<notin> set t_output"
  shows "Solution_call \<lparr>t_out = sort_key dkey t_output\<rparr> x t h =
     (if t = NaN \<or> t \<in> set t_output
      then (0, h\<lparr>sol_x := sol_x h @ [x], sol_t := sol_t h @ [t]\<rparr>)
      else (0, h))"
proof -
  let ?ts = "sort_key dkey t_output"
  have ne: "?ts \<noteq> []" using assms(1) by (metis length_sort length_0_conv)
  have free: "NaN \<notin> set ?ts" using assms(2) by simp
  have srt: "sorted (map dkey ?ts)" by simp
  have bs: "binary_search ?ts t \<longleftrightarrow> t = NaN \<or> t \<in> set t_output"
  proof (cases "t = NaN")
    case True
    with ne show ?thesis by (simp add: binary_search_NaN)
  next
    case False
    with binary_search_iff [OF srt free False] show ?thesis by simp
  qed
  show ?thesis
    unfolding Solution_call_def using assms(1) bs by simp
qed

lemma Solution_call_no_filter:
  "Solution_call \<lparr>t_out = []\<rparr> x t h =
     (0, h\<lparr>sol_x := sol_x h @ [x], sol_t := sol_t h @ [t]\<rparr>)"
  by (simp add: Solution_call_def)

text \<open>
  Claim C10, as stated, fails at the time NaN: with the output times \<open>[1]\<close> the pair is
  recorded, although NaN is equal to no element of the list.
\<close>

theorem Solution_records_NaN_counterexample:
  "Solution_new [Fin 1] = Some \<lparr>t_out = [Fin 1]\<rparr>
   \<and> snd (Solution_call \<lparr>t_out = [Fin 1]\<rparr> [5, 5] NaN example_holder)
        = \<lparr>sol_x = [[1, 1], [5, 5]], sol_t = [Fin 0, NaN]\<rparr>
   \<and> \<not> list_ex (deq NaN) [Fin 1]"
  by (simp add: Solution_new_def std_sort_def Solution_call_def binary_search_NaN
      example_holder_def deq_def)

text \<open>
  Claim C10, amended: for every non-empty list \<open>t_output\<close> that holds no NaN, the
  constructor yields a \<open>Solution\<close> whose \<open>operator()\<close> records the pair \<open>(x, t)\<close> if \<open>t\<close> is
  equal to an element of \<open>t_output\<close> or is NaN, and leaves the holder as it is otherwise;
  a permutation of \<open>t_output\<close> given to the constructor yields the same object, so it
  makes no difference to any call; with an empty \<open>t_output\<close> every call records its
  pair.
\<close>

theorem Solution_records_iff:
  "(t_output \<noteq> [] \<and> NaN \<notin> set t_output \<longrightarrow>
      (\<exists>S. Solution_new t_output = Some S
         \<and> (list_ex (deq t) t_output \<or> t = NaN \<longrightarrow>
              snd (Solution_call S x t h) = h\<lparr>sol_x := sol_x h @ [x], sol_t := sol_t h @ [t]\<rparr>)
         \<and> (\<not> list_ex (deq t) t_output \<and> t \<noteq> NaN \<longrightarrow>
              snd (Solution_call S x t h) = h)))
   \<and> (mset t_output' = mset t_output \<longrightarrow> Solution_new t_output' = Solution_new t_output)
   \<and> (\<exists>S. Solution_new [] = Some S
         \<and> snd (Solution_call S x t h) = h\<lparr>sol_x := sol_x h @ [x], sol_t := sol_t h @ [t]\<rparr>)"
proof (intro conjI impI)
  assume a: "t_output \<noteq> [] \<and> NaN \<notin> set t_output"
  then have ne: "t_output \<noteq> []" and free: "NaN \<notin> set t_output" by simp_all
  let ?S = "\<lparr>t_out = sort_key dkey t_output\<rparr>"
  have new: "Solution_new t_output = Some ?S"
    using ne free by (rule Solution_new_NaN_free)
  have ex: "list_ex (deq t) t_output \<longleftrightarrow> t \<noteq> NaN \<and> t \<in> set t_output"
    using free by (rule list_ex_deq)
  have rec: "list_ex (deq t) t_output \<or> t = NaN \<longrightarrow>
      snd (Solution_call ?S x t h) = h\<lparr>sol_x := sol_x h @ [x], sol_t := sol_t h @ [t]\<rparr>"
    by (auto simp: ex Solution_call_filter [OF ne free])
  have skip: "\<not> list_ex (deq t) t_output \<and> t \<noteq> NaN \<longrightarrow> snd (Solution_call ?S x t h) = h"
    by (auto simp: ex Solution_call_filter [OF ne free])
  from new rec skip
  show "\<exists>S. Solution_new t_output = Some S
         \<and> (list_ex (deq t) t_output \<or> t = NaN \<longrightarrow>
              snd (Solution_call S x t h) = h\<lparr>sol_x := sol_x h @ [x], sol_t := sol_t h @ [t]\<rparr>)
         \<and> (\<not> list_ex (deq t) t_output \<and> t \<noteq> NaN \<longrightarrow>
              snd (Solution_call S x t h) = h)"
    by blast
next
  assume "mset t_output' = mset t_output"
  then show "Solution_new t_output' = Solution_new t_output" by (rule Solution_new_perm)
next
  have "Solution_new [] = Some \<lparr>t_out = []\<rparr>" by (simp add: Solution_new_def)
  then show "\<exists>S. Solution_new [] = Some S
         \<and> snd (Solution_call S x t h) = h\<lparr>sol_x := sol_x h @ [x], sol_t := sol_t h @ [t]\<rparr>"
    by (simp add: Solution_call_no_filter)
qed

theorem Solution_records_iff_witness:
  "Solution_new [Fin 3, Fin 1, Fin 2] = Some example_solution
   \<and> Solution_new [Fin 1, Fin 2, Fin 3] = Some example_solution
   \<and> snd (Solution_call example_solution [5, 5] (Fin 2) example_holder)
        = \<lparr>sol_x = [[1, 1], [5, 5]], sol_t = [Fin 0, Fin 2]\<rparr>
   \<and> snd (Solution_call example_solution [5, 5] (Fin (5 / 2)) example_holder) = example_holder
   \<and> snd (Solution_call example_solution [5, 5] PInf example_holder) = example_holder
   \<and> snd (Solution_call example_solution [5, 5] NaN example_holder)
        = \<lparr>sol_x = [[1, 1], [5, 5]], sol_t = [Fin 0, NaN]\<rparr>"
proof -
  have new: "Solution_new [Fin 3, Fin 1, Fin 2] = Some example_solution"
    by (simp add: Solution_new_def std_sort_def example_solution_def)
  have h: "[Fin 3, Fin 1, Fin 2] \<noteq> [] \<and> NaN \<notin> set [Fin 3, Fin 1, Fin 2]"
    "mset [Fin 1, Fin 2, Fin 3] = mset [Fin 3, Fin 1, Fin 2]"
    by simp_all
  have ex: "list_ex (deq (Fin 2)) [Fin 3, Fin 1, Fin 2]"
    "\<not> list_ex (deq (Fin (5 / 2))) [Fin 3, Fin 1, Fin 2]"
    "\<not> list_ex (deq PInf) [Fin 3, Fin 1, Fin 2]"
    by (simp_all add: deq_def)
  from new h ex
    Solution_records_iff [of "[Fin 3, Fin 1, Fin 2]" "Fin 2" "[5, 5]" example_holder
      "[Fin 1, Fin 2, Fin 3]"]
    Solution_records_iff [of "[Fin 3, Fin 1, Fin 2]" "Fin (5 / 2)" "[5, 5]" example_holder
      "[Fin 1, Fin 2, Fin 3]"]
    Solution_records_iff [of "[Fin 3, Fin 1, Fin 2]" PInf "[5, 5]" example_holder
      "[Fin 1, Fin 2, Fin 3]"]
    Solution_records_iff [of "[Fin 3, Fin 1, Fin 2]" NaN "[5, 5]" example_holder
      "[Fin 1, Fin 2, Fin 3]"]
  show ?thesis by (simp add: example_holder_def)
qed

section \<open>Properties of the integration driver\<close>






subsection \<open>What the callback has been invoked on\<close>




subsection \<open>The stop request\<close>









text \<open>
  A callback that always returns 0 never leads to the caller-requested stop; the
  \<open>Solution\<close> manager, with the holder as its state, is such a callback.
\<close>

lemma driver_continues_on_zero:
  assumes "\<And>c x t. fst (cb c x t) = 0"
  shows "fst (driver n ctl cb t1 k c cur L) \<noteq> Caller_requested_stop"
proof (induction n arbitrary: k c cur L)
  case 0
  show ?case by simp
next
  case (Suc n)
  show ?case
  proof (cases "snd cur < t1")
    case False
    then show ?thesis by simp
  next
    case True
    obtain rej res where ctl: "ctl k cur = (rej, res)" by (cases "ctl k cur")
    show ?thesis
    proof (cases res)
      case None
      with True ctl show ?thesis by simp
    next
      case (Some a)
      obtain new k' where a: "a = (new, k')" by (cases a)
      obtain r c2 where cb: "cb c (fst new) (snd new) = (r, c2)"
        by (cases "cb c (fst new) (snd new)")
      with assms [of c "fst new" "snd new"] have "r = 0" by simp
      with True ctl Some a cb Suc.IH show ?thesis by simp
    qed
  qed
qed

lemma driver_with_Solution:
  "fst (driver n ctl (\<lambda>h x t. Solution_call S x (Fin t) h) t1 k h cur L)
     \<noteq> Caller_requested_stop"
  by (rule driver_continues_on_zero) (simp add: Solution_call_def)

end
